theory Spec2Isabelle
  imports Complex_Main "HOL-Library.AList"
begin

section \<open>The node manager of pkg/node/manager/manager.go\<close>

text \<open>
  The model is sequential: one call of the manager runs from its first statement to its
  return. The manager-wide mutex and the mutex of the handler set only order concurrent
  calls and have no effect on a single call; the mutex of a node entry is modelled, since
  the code promises that datapath calls about a node are made while it is held.
\<close>

subsection \<open>Data of the packages the manager uses\<close>

text \<open>\<open>source.Source\<close> is a Go string.\<close>

type_synonym Source = string

text \<open>\<open>net.IP\<close> is a byte slice; the nil slice is a value of its own.\<close>

datatype IP = IPnil | IPBytes "nat list"

text \<open>
  \<open>addressing.AddressType\<close>: the manager compares it with \<open>NodeCiliumInternalIP\<close>
  only; every other type is kept by its name.
\<close>

datatype AddressType = NodeCiliumInternalIP | OtherAddressType string

record Address =
  AddrType :: AddressType
  AddrIP :: IP

text \<open>The fields of \<open>node.Node\<close> that the manager reads.\<close>

record Node =
  Name :: string
  Cluster :: string
  IPAddresses :: "Address list"
  IPv4HealthIP :: IP
  IPv6HealthIP :: IP
  EncryptionKey :: nat
  Source :: Source

datatype Identity = NodeIdentity string string

datatype ReservedIdentity = ReservedIdentityHost | ReservedIdentityHealth

text \<open>
  A call on \<open>ipcache.IPIdentityCache\<close>. An upsert is kept with its arguments (the IP as
  a string, the tunnel endpoint, the encryption key, the identity and its source) and with
  the boolean it returned.
\<close>

datatype IPCacheCall =
  Upsert string IP nat ReservedIdentity Source bool
| Delete string Source

fun isOwning :: "IPCacheCall \<Rightarrow> bool" where
  "isOwning (Upsert a t k i src b) = b"
| "isOwning (Delete a src) = True"

fun callIP :: "IPCacheCall \<Rightarrow> string" where
  "callIP (Upsert a t k i src b) = a"
| "callIP (Delete a src) = a"

text \<open>
  What the manager takes from other packages, none of them under src/: the arbitration
  predicate \<open>source.AllowOverwrite\<close>, the constant \<open>source.Kubernetes\<close>, the option
  \<open>option.Config.EncryptNode\<close>, the methods \<open>Identity\<close>, \<open>GetNodeIP\<close> and \<open>IsLocal\<close>
  of a node, \<open>To4\<close> and \<open>String\<close> of an IP, and the answer of the ipcache to an upsert,
  which may depend on every call the ipcache has seen so far.
\<close>

record Deps =
  AllowOverwrite :: "Source \<Rightarrow> Source \<Rightarrow> bool"
  Kubernetes :: Source
  EncryptNode :: bool
  Identity :: "Node \<Rightarrow> Identity"
  GetNodeIP :: "Node \<Rightarrow> bool \<Rightarrow> IP"
  IsLocal :: "Node \<Rightarrow> bool"
  To4 :: "IP \<Rightarrow> IP"
  IPString :: "IP \<Rightarrow> string"
  UpsertOwns :: "IPCacheCall list \<Rightarrow> string \<Rightarrow> IP \<Rightarrow> nat \<Rightarrow> ReservedIdentity \<Rightarrow> Source \<Rightarrow> bool"

subsection \<open>The datapath handlers\<close>

text \<open>
  A \<open>datapath.NodeHandler\<close> is an interface value; the model names it by a number. What
  a handler does with a call is outside the manager: the model keeps, for each handler,
  the calls it received in order, each with the entry mutexes held at that moment.
\<close>

datatype NodeHandler = Handler nat

datatype Call =
  NodeAdd Node
| NodeUpdate Node Node
| NodeDelete Node
| NodeValidateImplementation Node

type_synonym Notification = "Call \<times> Identity list"

datatype Collector = MetricDatapathValidations | MetricEventsReceived | MetricNumNodes

datatype Panic = CloseOfClosedChannel

subsection \<open>The state\<close>

text \<open>
  The fields of \<open>Manager\<close>, followed by what the manager changes outside itself.
  \<open>nodes\<close> is the Go map as an association list: the order of the list stands for the
  order in which a \<open>range\<close> over the map visits it, which Go leaves open. An entry is
  the pair of its key and its record; its mutex is in \<open>entryMutexHeld\<close> under its key.
\<close>

record State =
  nodes :: "(Identity \<times> Node) list"
  nodeHandlers :: "NodeHandler set"
  closeChanClosed :: bool
  name :: string
  metricEventsReceived :: "string \<times> Source \<Rightarrow> nat"
  metricNumNodes :: int
  metricDatapathValidations :: nat
  registered :: "Collector set"
  entryMutexHeld :: "Identity list"
  ipcache :: "IPCacheCall list"
  handlerLog :: "NodeHandler \<Rightarrow> Notification list"

definition lockEntry :: "Identity \<Rightarrow> State \<Rightarrow> State" where
  "lockEntry k s = s\<lparr>entryMutexHeld := k # entryMutexHeld s\<rparr>"

definition unlockEntry :: "Identity \<Rightarrow> State \<Rightarrow> State" where
  "unlockEntry k s = s\<lparr>entryMutexHeld := remove1 k (entryMutexHeld s)\<rparr>"

text \<open>One method call on one handler.\<close>

definition invoke :: "NodeHandler \<Rightarrow> Call \<Rightarrow> State \<Rightarrow> State" where
  "invoke nh c s =
     s\<lparr>handlerLog := (handlerLog s)(nh := handlerLog s nh @ [(c, entryMutexHeld s)])\<rparr>"

text \<open>
  \<open>Iter\<close> runs \<open>f\<close> on every subscribed handler, in the open order of a \<open>range\<close> over
  the handler set. Every \<open>f\<close> of this file makes one method call on its handler, and the
  calls are kept per handler, so the order does not show: \<open>f nh\<close> is the call made.
\<close>

definition Iter :: "(NodeHandler \<Rightarrow> Call) \<Rightarrow> State \<Rightarrow> State" where
  "Iter f s =
     s\<lparr>handlerLog := (\<lambda>nh. if nh \<in> nodeHandlers s
                            then handlerLog s nh @ [(f nh, entryMutexHeld s)]
                            else handlerLog s nh)\<rparr>"

definition IPIdentityCache_Upsert ::
  "Deps \<Rightarrow> string \<Rightarrow> IP \<Rightarrow> nat \<Rightarrow> ReservedIdentity \<Rightarrow> Source \<Rightarrow> State \<Rightarrow> bool \<times> State" where
  "IPIdentityCache_Upsert d a t k i src s =
     (let b = UpsertOwns d (ipcache s) a t k i src
      in (b, s\<lparr>ipcache := ipcache s @ [Upsert a t k i src b]\<rparr>))"

definition IPIdentityCache_Delete :: "string \<Rightarrow> Source \<Rightarrow> State \<Rightarrow> State" where
  "IPIdentityCache_Delete a src s = s\<lparr>ipcache := ipcache s @ [Delete a src]\<rparr>"

definition incEventsReceived :: "string \<Rightarrow> Source \<Rightarrow> State \<Rightarrow> State" where
  "incEventsReceived eventType src s =
     s\<lparr>metricEventsReceived :=
         (metricEventsReceived s)((eventType, src) := Suc (metricEventsReceived s (eventType, src)))\<rparr>"

subsection \<open>Subscribe, Unsubscribe, NewManager, Close\<close>

definition Subscribe :: "NodeHandler \<Rightarrow> State \<Rightarrow> State" where
  "Subscribe nh s =
     fold (\<lambda>(k, v) s'. unlockEntry k (invoke nh (NodeAdd v) (lockEntry k s')))
          (nodes s)
          (s\<lparr>nodeHandlers := insert nh (nodeHandlers s)\<rparr>)"

definition Unsubscribe :: "NodeHandler \<Rightarrow> State \<Rightarrow> State" where
  "Unsubscribe nh s = s\<lparr>nodeHandlers := nodeHandlers s - {nh}\<rparr>"

text \<open>
  \<open>NewManager\<close>: \<open>registerOk\<close> is what \<open>metrics.RegisterList\<close> answers; the background
  goroutine it starts is a second thread and is not part of the model.
\<close>

definition NewManager :: "string \<Rightarrow> NodeHandler \<Rightarrow> bool \<Rightarrow> State option" where
  "NewManager nm dp registerOk =
     (let m = Subscribe dp
                \<lparr>nodes = [], nodeHandlers = {}, closeChanClosed = False, name = nm,
                 metricEventsReceived = (\<lambda>_. 0), metricNumNodes = 0,
                 metricDatapathValidations = 0, registered = {},
                 entryMutexHeld = [], ipcache = [], handlerLog = (\<lambda>_. [])\<rparr>
      in if \<not> registerOk then None
         else Some (m\<lparr>registered := {MetricDatapathValidations, MetricEventsReceived, MetricNumNodes}\<rparr>))"

text \<open>Closing a channel that is closed already panics.\<close>

definition Close :: "State \<Rightarrow> Panic + State" where
  "Close s =
     (if closeChanClosed s then Inl CloseOfClosedChannel
      else
        let s1 = s\<lparr>closeChanClosed := True\<rparr>;
            s2 = s1\<lparr>registered := registered s1 - {MetricNumNodes}\<rparr>;
            s3 = s2\<lparr>registered := registered s2 - {MetricEventsReceived}\<rparr>;
            s4 = s3\<lparr>registered := registered s3 - {MetricDatapathValidations}\<rparr>
        in Inr (fold (\<lambda>(k, n) s'. unlockEntry k (Iter (\<lambda>nh. NodeDelete n) (lockEntry k s')))
                     (nodes s4) s4))"

subsection \<open>ClusterSizeDependantInterval\<close>

text \<open>
  A \<open>time.Duration\<close> is a number of nanoseconds. The float64 arithmetic of the source is
  taken over the reals (no rounding of the product or of the logarithm), and the
  conversion to int64 cuts the fraction off towards zero, as Go's conversion does.
\<close>

definition Log1p :: "real \<Rightarrow> real" where
  "Log1p x = ln (1 + x)"





subsection \<open>NodeUpdated\<close>

text \<open>The local variables of \<open>NodeUpdated\<close> that its three loops share.\<close>

record Locals =
  nodeIP :: IP
  nodeIP4 :: IP
  dpUpdate :: bool

definition internalStep :: "Deps \<Rightarrow> Node \<Rightarrow> Address \<Rightarrow> Locals \<times> State \<Rightarrow> Locals \<times> State" where
  "internalStep d n address ls =
     (case ls of (l, s) \<Rightarrow>
        if AddrType address = NodeCiliumInternalIP then
          let l1 = l\<lparr>nodeIP := GetNodeIP d n False\<rparr>;
              l2 = (if To4 d (AddrIP address) \<noteq> IPnil then l1\<lparr>nodeIP4 := nodeIP l1\<rparr> else l1);
              r = IPIdentityCache_Upsert d (IPString d (AddrIP address)) (nodeIP l2)
                    (EncryptionKey n) ReservedIdentityHost (Source n) s
          in (if \<not> fst r then l2\<lparr>dpUpdate := False\<rparr> else l2, snd r)
        else (l, s))"

definition encryptStep :: "Deps \<Rightarrow> Node \<Rightarrow> Address \<Rightarrow> Locals \<times> State \<Rightarrow> Locals \<times> State" where
  "encryptStep d n address ls =
     (case ls of (l, s) \<Rightarrow>
        if AddrType address = NodeCiliumInternalIP then (l, s)
        else
          let r = IPIdentityCache_Upsert d (IPString d (AddrIP address)) (nodeIP4 l)
                    (EncryptionKey n) ReservedIdentityHost (Source n) s
          in (if \<not> fst r then l\<lparr>dpUpdate := False\<rparr> else l, snd r))"

definition healthStep :: "Deps \<Rightarrow> Node \<Rightarrow> IP \<Rightarrow> Locals \<times> State \<Rightarrow> Locals \<times> State" where
  "healthStep d n address ls =
     (case ls of (l, s) \<Rightarrow>
        if address = IPnil then (l, s)
        else
          let r = IPIdentityCache_Upsert d (IPString d address) (GetNodeIP d n False)
                    (EncryptionKey n) ReservedIdentityHealth (Source n) s
          in (if \<not> fst r then l\<lparr>dpUpdate := False\<rparr> else l, snd r))"

text \<open>Lines 281 to 337: the three loops that write the addresses of \<open>n\<close> to the ipcache.\<close>

definition projectAddresses :: "Deps \<Rightarrow> Node \<Rightarrow> State \<Rightarrow> Locals \<times> State" where
  "projectAddresses d n s =
     (let ls1 = fold (internalStep d n) (IPAddresses n)
                  (\<lparr>nodeIP = IPnil, nodeIP4 = IPnil, dpUpdate = True\<rparr>, s);
          ls2 = (if EncryptNode d then fold (encryptStep d n) (IPAddresses n) ls1 else ls1)
      in fold (healthStep d n) [IPv4HealthIP n, IPv6HealthIP n] ls2)"

text \<open>
  Lines 339 to 373: the lookup, the arbitration and the change of the entry. \<open>dp\<close> is
  the value of \<open>dpUpdate\<close> after the loops.
\<close>

definition storeNode :: "Deps \<Rightarrow> Node \<Rightarrow> bool \<Rightarrow> State \<Rightarrow> State" where
  "storeNode d n dp s1 =
     (let nodeIdentity = Identity d n
      in case map_of (nodes s1) nodeIdentity of
           Some oldNode \<Rightarrow>
             let s2 = incEventsReceived ''update'' (Source n) s1
             in if \<not> AllowOverwrite d (Source oldNode) (Source n) then s2
                else
                  let s3 = lockEntry nodeIdentity s2;
                      s4 = s3\<lparr>nodes := AList.update nodeIdentity n (nodes s3)\<rparr>;
                      s5 = (if dp then Iter (\<lambda>nh. NodeUpdate oldNode n) s4 else s4)
                  in unlockEntry nodeIdentity s5
         | None \<Rightarrow>
             let s2 = incEventsReceived ''add'' (Source n) s1;
                 s3 = s2\<lparr>metricNumNodes := metricNumNodes s2 + 1\<rparr>;
                 s4 = lockEntry nodeIdentity s3;
                 s5 = s4\<lparr>nodes := AList.update nodeIdentity n (nodes s4)\<rparr>;
                 s6 = (if dp then Iter (\<lambda>nh. NodeAdd n) s5 else s5)
             in unlockEntry nodeIdentity s6)"

definition NodeUpdated :: "Deps \<Rightarrow> Node \<Rightarrow> State \<Rightarrow> State" where
  "NodeUpdated d n s =
     (let ls = projectAddresses d n s
      in storeNode d n (dpUpdate (fst ls)) (snd ls))"

subsection \<open>NodeDeleted and the queries\<close>

definition NodeDeleted :: "Deps \<Rightarrow> Node \<Rightarrow> State \<Rightarrow> Panic + State" where
  "NodeDeleted d n s =
     (let s1 = incEventsReceived ''delete'' (Source n) s;
          nodeIdentity = Identity d n
      in case map_of (nodes s1) nodeIdentity of
           None \<Rightarrow> Inr s1
         | Some entryNode \<Rightarrow>
             if Source n \<noteq> Source entryNode then
               (if IsLocal d n \<and> Source n = Kubernetes d then Close s1 else Inr s1)
             else
               let s2 = fold (\<lambda>address. IPIdentityCache_Delete (IPString d (AddrIP address)) (Source n))
                             (IPAddresses entryNode) s1;
                   s3 = s2\<lparr>metricNumNodes := metricNumNodes s2 - 1\<rparr>;
                   s4 = lockEntry nodeIdentity s3;
                   s5 = s4\<lparr>nodes := AList.delete nodeIdentity (nodes s4)\<rparr>;
                   s6 = Iter (\<lambda>nh. NodeDelete n) s5
               in Inr (unlockEntry nodeIdentity s6))"

definition Exists :: "State \<Rightarrow> Identity \<Rightarrow> bool" where
  "Exists s ident = (case map_of (nodes s) ident of Some _ \<Rightarrow> True | None \<Rightarrow> False)"

definition GetNodeIdentities :: "State \<Rightarrow> Identity list" where
  "GetNodeIdentities s = map fst (nodes s)"

definition GetNodes :: "State \<Rightarrow> (Identity \<rightharpoonup> Node)" where
  "GetNodes s = map_of (nodes s)"

definition DeleteAllNodes :: "State \<Rightarrow> State" where
  "DeleteAllNodes s =
     (let s1 = fold (\<lambda>(k, n) s'. unlockEntry k (Iter (\<lambda>nh. NodeDelete n) (lockEntry k s')))
                    (nodes s) s
      in s1\<lparr>nodes := []\<rparr>)"

subsection \<open>Notions used to state the properties\<close>

text \<open>The ipcache calls made between two states.\<close>

definition newCalls :: "State \<Rightarrow> State \<Rightarrow> IPCacheCall list" where
  "newCalls s s' = drop (length (ipcache s)) (ipcache s')"

text \<open>The notifications a handler received between two states.\<close>

definition newNotifications :: "State \<Rightarrow> State \<Rightarrow> NodeHandler \<Rightarrow> Notification list" where
  "newNotifications s s' nh = drop (length (handlerLog s nh)) (handlerLog s' nh)"

text \<open>
  The addresses of a node that \<open>NodeUpdated\<close> writes to the ipcache, as the
  specification lists them: the internal overlay addresses, the other addresses when node
  encryption is on, and the health addresses that are set.
\<close>

definition projectedIPs :: "Deps \<Rightarrow> Node \<Rightarrow> string list" where
  "projectedIPs d n =
     map (\<lambda>a. IPString d (AddrIP a))
         (filter (\<lambda>a. AddrType a = NodeCiliumInternalIP) (IPAddresses n))
     @ (if EncryptNode d
        then map (\<lambda>a. IPString d (AddrIP a))
                 (filter (\<lambda>a. AddrType a \<noteq> NodeCiliumInternalIP) (IPAddresses n))
        else [])
     @ map (IPString d) (filter (\<lambda>a. a \<noteq> IPnil) [IPv4HealthIP n, IPv6HealthIP n])"

text \<open>An update is accepted when its identity is new or the arbitration allows it.\<close>

definition accepted :: "Deps \<Rightarrow> Node \<Rightarrow> State \<Rightarrow> bool" where
  "accepted d n s =
     (case map_of (nodes s) (Identity d n) of
        None \<Rightarrow> True
      | Some oldNode \<Rightarrow> AllowOverwrite d (Source oldNode) (Source n))"

text \<open>
  A Go map has one entry for a key, and the manager files a record under its own
  identity.
\<close>

definition wellFormed :: "Deps \<Rightarrow> State \<Rightarrow> bool" where
  "wellFormed d s =
     (distinct (map fst (nodes s)) \<and> list_all (\<lambda>(k, n). Identity d n = k) (nodes s))"

text \<open>A notification is a \<open>NodeDelete\<close>, or a \<open>NodeAdd\<close>, of a record of the identity \<open>k\<close>.\<close>

fun deletesOf :: "Deps \<Rightarrow> Identity \<Rightarrow> Notification \<Rightarrow> bool" where
  "deletesOf d k (NodeDelete n, held) = (Identity d n = k)"
| "deletesOf d k (_, held) = False"

fun addsOf :: "Deps \<Rightarrow> Identity \<Rightarrow> Notification \<Rightarrow> bool" where
  "addsOf d k (NodeAdd n, held) = (Identity d n = k)"
| "addsOf d k (_, held) = False"

text \<open>An upsert made for the node \<open>n\<close>: it carries the encryption key and the source of \<open>n\<close>.\<close>

fun isUpsertOf :: "Node \<Rightarrow> IPCacheCall \<Rightarrow> bool" where
  "isUpsertOf n (Upsert a t k i src b) = (k = EncryptionKey n \<and> src = Source n)"
| "isUpsertOf n (Delete a src) = False"

text \<open>
  Upserts over a loop: the state differs in the ipcache only, which grew by the upserts
  \<open>evs\<close> for \<open>n\<close>, and the flag \<open>dpUpdate\<close> is what it was and the conjunction of the
  answers.
\<close>

definition upserted :: "Node \<Rightarrow> Locals \<times> State \<Rightarrow> Locals \<times> State \<Rightarrow> IPCacheCall list \<Rightarrow> bool" where
  "upserted n ls ls' evs =
     (snd ls' = (snd ls)\<lparr>ipcache := ipcache (snd ls) @ evs\<rparr> \<and>
      dpUpdate (fst ls') = (dpUpdate (fst ls) \<and> list_all isOwning evs) \<and>
      list_all (isUpsertOf n) evs)"

subsection \<open>Concrete inputs\<close>

text \<open>
  One choice of the parameters, on which the model is run: local state yields to local
  state only, kvstore state to kvstore and local state, everything else to every source;
  the ipcache answers that it owns every address but 10.0.0.9.
\<close>

definition exampleDeps :: Deps where
  "exampleDeps =
     \<lparr>AllowOverwrite = (\<lambda>existing new.
          if existing = ''local'' then new = ''local''
          else if existing = ''kvstore'' then new = ''kvstore'' \<or> new = ''local''
          else True),
      Kubernetes = ''k8s'',
      EncryptNode = False,
      Identity = (\<lambda>n. NodeIdentity (Name n) (Cluster n)),
      GetNodeIP = (\<lambda>n ipv6. case IPAddresses n of [] \<Rightarrow> IPnil | a # _ \<Rightarrow> AddrIP a),
      IsLocal = (\<lambda>n. Name n = ''local''),
      To4 = (\<lambda>ip. case ip of IPnil \<Rightarrow> IPnil
                    | IPBytes bs \<Rightarrow> if length bs = 4 then ip else IPnil),
      IPString = (\<lambda>ip. if ip = IPBytes [10, 0, 0, 1] then ''10.0.0.1''
                     else if ip = IPBytes [10, 0, 0, 2] then ''10.0.0.2''
                     else if ip = IPBytes [10, 0, 0, 9] then ''10.0.0.9''
                     else ''other''),
      UpsertOwns = (\<lambda>history a t k i src. a \<noteq> ''10.0.0.9'')\<rparr>"

definition exampleNode :: "string \<Rightarrow> Source \<Rightarrow> nat list \<Rightarrow> Node" where
  "exampleNode nm src bs =
     \<lparr>Name = nm, Cluster = ''default'',
      IPAddresses = [\<lparr>AddrType = NodeCiliumInternalIP, AddrIP = IPBytes bs\<rparr>],
      IPv4HealthIP = IPnil, IPv6HealthIP = IPnil, EncryptionKey = 0, Source = src\<rparr>"

text \<open>The manager that \<open>NewManager\<close> returns for the handler 0.\<close>

definition freshManager :: State where
  "freshManager =
     \<lparr>nodes = [], nodeHandlers = {Handler 0}, closeChanClosed = False, name = ''manager'',
      metricEventsReceived = (\<lambda>_. 0), metricNumNodes = 0, metricDatapathValidations = 0,
      registered = {MetricDatapathValidations, MetricEventsReceived, MetricNumNodes},
      entryMutexHeld = [], ipcache = [], handlerLog = (\<lambda>_. [])\<rparr>"

text \<open>The manager after the kvstore has announced the node n1 at 10.0.0.1.\<close>

definition oneNodeManager :: State where
  "oneNodeManager = NodeUpdated exampleDeps (exampleNode ''n1'' ''kvstore'' [10, 0, 0, 1]) freshManager"

text \<open>The manager after Kubernetes has announced a second node, n2 at 10.0.0.2.\<close>

definition twoNodeManager :: State where
  "twoNodeManager = NodeUpdated exampleDeps (exampleNode ''n2'' ''k8s'' [10, 0, 0, 2]) oneNodeManager"

text \<open>An update for n1 from Kubernetes, to which kvstore state does not yield.\<close>

definition rejectedUpdate :: Node where
  "rejectedUpdate = exampleNode ''n1'' ''k8s'' [10, 0, 0, 2]"

text \<open>A node whose address 10.0.0.9 the ipcache does not grant.\<close>

definition contestedNode :: Node where
  "contestedNode = exampleNode ''n9'' ''k8s'' [10, 0, 0, 9]"


section \<open>Properties\<close>

subsection \<open>Arithmetic of the interval\<close>







lemma Log1p_nonneg: "0 \<le> Log1p (real n)"
  by (simp add: Log1p_def)




subsection \<open>The loops over the node map\<close>

lemma fold_Iter_loop:
  "fold (\<lambda>(k, n) s'. unlockEntry k (Iter (\<lambda>nh. c n) (lockEntry k s'))) xs s =
     s\<lparr>handlerLog := (\<lambda>nh. if nh \<in> nodeHandlers s
                            then handlerLog s nh @ map (\<lambda>(k, n). (c n, k # entryMutexHeld s)) xs
                            else handlerLog s nh)\<rparr>"
proof (induction xs arbitrary: s)
  case Nil
  show ?case by (simp cong: if_cong)
next
  case (Cons x xs)
  obtain k n where x: "x = (k, n)" by (cases x)
  let ?s1 = "unlockEntry k (Iter (\<lambda>nh. c n) (lockEntry k s))"
  have s1: "?s1 = s\<lparr>handlerLog := (\<lambda>nh. if nh \<in> nodeHandlers s
                            then handlerLog s nh @ [(c n, k # entryMutexHeld s)]
                            else handlerLog s nh)\<rparr>"
    by (simp add: unlockEntry_def Iter_def lockEntry_def cong: if_cong)
  have "fold (\<lambda>(k, n) s'. unlockEntry k (Iter (\<lambda>nh. c n) (lockEntry k s'))) (x # xs) s
      = fold (\<lambda>(k, n) s'. unlockEntry k (Iter (\<lambda>nh. c n) (lockEntry k s'))) xs ?s1"
    by (simp add: x)
  also have "\<dots> = ?s1\<lparr>handlerLog := (\<lambda>nh. if nh \<in> nodeHandlers ?s1
                            then handlerLog ?s1 nh @ map (\<lambda>(k, n). (c n, k # entryMutexHeld ?s1)) xs
                            else handlerLog ?s1 nh)\<rparr>"
    by (rule Cons.IH)
  also have "\<dots> = s\<lparr>handlerLog := (\<lambda>nh. if nh \<in> nodeHandlers s
                            then handlerLog s nh @ map (\<lambda>(k, n). (c n, k # entryMutexHeld s)) (x # xs)
                            else handlerLog s nh)\<rparr>"
    unfolding s1 by (simp add: x fun_eq_iff cong: if_cong)
  finally show ?case .
qed

lemma fold_invoke_loop:
  "fold (\<lambda>(k, v) s'. unlockEntry k (invoke nh (c v) (lockEntry k s'))) xs s =
     s\<lparr>handlerLog := (handlerLog s)(nh := handlerLog s nh @ map (\<lambda>(k, v). (c v, k # entryMutexHeld s)) xs)\<rparr>"
proof (induction xs arbitrary: s)
  case Nil
  show ?case by simp
next
  case (Cons x xs)
  obtain k v where x: "x = (k, v)" by (cases x)
  let ?s1 = "unlockEntry k (invoke nh (c v) (lockEntry k s))"
  have s1: "?s1 = s\<lparr>handlerLog := (handlerLog s)(nh := handlerLog s nh @ [(c v, k # entryMutexHeld s)])\<rparr>"
    by (simp add: unlockEntry_def invoke_def lockEntry_def)
  have "fold (\<lambda>(k, v) s'. unlockEntry k (invoke nh (c v) (lockEntry k s'))) (x # xs) s
      = fold (\<lambda>(k, v) s'. unlockEntry k (invoke nh (c v) (lockEntry k s'))) xs ?s1"
    by (simp add: x)
  also have "\<dots> = ?s1\<lparr>handlerLog := (handlerLog ?s1)(nh := handlerLog ?s1 nh @ map (\<lambda>(k, v). (c v, k # entryMutexHeld ?s1)) xs)\<rparr>"
    by (rule Cons.IH)
  also have "\<dots> = s\<lparr>handlerLog := (handlerLog s)(nh := handlerLog s nh @ map (\<lambda>(k, v). (c v, k # entryMutexHeld s)) (x # xs))\<rparr>"
    unfolding s1 by (simp add: x)
  finally show ?case .
qed

lemma Subscribe_eq:
  "Subscribe nh s =
     s\<lparr>nodeHandlers := insert nh (nodeHandlers s),
       handlerLog := (handlerLog s)(nh := handlerLog s nh @ map (\<lambda>(k, v). (NodeAdd v, k # entryMutexHeld s)) (nodes s))\<rparr>"
  unfolding Subscribe_def fold_invoke_loop[where c = NodeAdd] by simp

lemma Close_eq:
  "\<not> closeChanClosed s \<Longrightarrow>
   Close s = Inr (s\<lparr>closeChanClosed := True,
                   registered := registered s - {MetricNumNodes} - {MetricEventsReceived} - {MetricDatapathValidations},
                   handlerLog := (\<lambda>nh. if nh \<in> nodeHandlers s
                            then handlerLog s nh @ map (\<lambda>(k, n). (NodeDelete n, k # entryMutexHeld s)) (nodes s)
                            else handlerLog s nh)\<rparr>)"
  unfolding Close_def Let_def fold_Iter_loop[where c = NodeDelete] by (simp cong: if_cong)

lemma DeleteAllNodes_eq:
  "DeleteAllNodes s =
     s\<lparr>nodes := [],
       handlerLog := (\<lambda>nh. if nh \<in> nodeHandlers s
                            then handlerLog s nh @ map (\<lambda>(k, n). (NodeDelete n, k # entryMutexHeld s)) (nodes s)
                            else handlerLog s nh)\<rparr>"
  unfolding DeleteAllNodes_def Let_def fold_Iter_loop[where c = NodeDelete] by (simp cong: if_cong)

text \<open>In a well-formed map one entry is filed under each key.\<close>

lemma one_entry_per_key:
  assumes "distinct (map fst xs)" "list_all (\<lambda>(k, n). ident n = k) xs" "(k, n) \<in> set xs"
  shows "length (filter (\<lambda>(k', n'). ident n' = k) xs) = 1"
  using assms
proof (induction xs)
  case Nil
  then show ?case by simp
next
  case (Cons x xs)
  obtain k' n' where x: "x = (k', n')" by (cases x)
  have id: "ident n' = k'" using Cons.prems(2) by (simp add: x)
  have none: "filter (\<lambda>(k', n'). ident n' = k) xs = []" if "k \<notin> fst ` set xs"
  proof -
    have "ident b \<noteq> k" if "(a, b) \<in> set xs" for a b
    proof -
      have "ident b = a" using Cons.prems(2) that by (auto simp: list_all_iff)
      moreover have "a \<in> fst ` set xs" using that by force
      ultimately show ?thesis using \<open>k \<notin> fst ` set xs\<close> by auto
    qed
    then show ?thesis by (auto simp: filter_empty_conv)
  qed
  show ?case
  proof (cases "k' = k")
    case True
    then have "k \<notin> fst ` set xs" using Cons.prems(1) by (simp add: x)
    then show ?thesis using none id True by (simp add: x)
  next
    case False
    then have "(k, n) \<in> set xs" using Cons.prems(3) by (simp add: x)
    then show ?thesis using Cons.IH Cons.prems(1,2) False id by (simp add: x)
  qed
qed

lemma filter_deletesOf:
  "filter (deletesOf d k) (map (\<lambda>(k', n). (NodeDelete n, h k')) xs)
     = map (\<lambda>(k', n). (NodeDelete n, h k')) (filter (\<lambda>(k', n). Identity d n = k) xs)"
  by (induction xs) auto

lemma filter_addsOf:
  "filter (addsOf d k) (map (\<lambda>(k', n). (NodeAdd n, h k')) xs)
     = map (\<lambda>(k', n). (NodeAdd n, h k')) (filter (\<lambda>(k', n). Identity d n = k) xs)"
  by (induction xs) auto

subsection \<open>The loops of upserts\<close>

lemma upserted_refl: "upserted n ls ls []"
  by (simp add: upserted_def)

lemma upserted_trans: "upserted n a b xs \<Longrightarrow> upserted n b c ys \<Longrightarrow> upserted n a c (xs @ ys)"
  by (auto simp: upserted_def)

lemma internalStep_upserted:
  "\<exists>evs. upserted n ls (internalStep d n a ls) evs \<and>
         map callIP evs = (if AddrType a = NodeCiliumInternalIP then [IPString d (AddrIP a)] else [])"
proof (cases ls)
  case (Pair l s)
  show ?thesis
  proof (cases "AddrType a = NodeCiliumInternalIP")
    case True
    then show ?thesis using Pair
      by (auto simp: internalStep_def upserted_def IPIdentityCache_Upsert_def Let_def)
  next
    case False
    then show ?thesis using Pair by (simp add: internalStep_def upserted_def)
  qed
qed

lemma encryptStep_upserted:
  "\<exists>evs. upserted n ls (encryptStep d n a ls) evs \<and>
         map callIP evs = (if AddrType a \<noteq> NodeCiliumInternalIP then [IPString d (AddrIP a)] else [])"
  by (cases ls) (auto simp: encryptStep_def upserted_def IPIdentityCache_Upsert_def Let_def)

lemma healthStep_upserted:
  "\<exists>evs. upserted n ls (healthStep d n a ls) evs \<and>
         map callIP evs = (if a \<noteq> IPnil then [IPString d a] else [])"
  by (cases ls) (auto simp: healthStep_def upserted_def IPIdentityCache_Upsert_def Let_def)

lemma fold_upserted:
  assumes step: "\<And>a ls. \<exists>evs. upserted n ls (f a ls) evs \<and> map callIP evs = (if P a then [g a] else [])"
  shows "\<exists>evs. upserted n ls (fold f as ls) evs \<and> map callIP evs = map g (filter P as)"
proof (induction as arbitrary: ls)
  case Nil
  show ?case using upserted_refl[of n ls] by auto
next
  case (Cons a as)
  obtain e1 where e1: "upserted n ls (f a ls) e1" "map callIP e1 = (if P a then [g a] else [])"
    using step by blast
  obtain e2 where e2: "upserted n (f a ls) (fold f as (f a ls)) e2" "map callIP e2 = map g (filter P as)"
    using Cons.IH by blast
  have "upserted n ls (fold f (a # as) ls) (e1 @ e2)"
    using upserted_trans[OF e1(1) e2(1)] by simp
  moreover have "map callIP (e1 @ e2) = map g (filter P (a # as))"
    using e1(2) e2(2) by simp
  ultimately show ?case by blast
qed

lemma projectAddresses_upserted:
  "\<exists>evs. upserted n (\<lparr>nodeIP = IPnil, nodeIP4 = IPnil, dpUpdate = True\<rparr>, s) (projectAddresses d n s) evs
         \<and> map callIP evs = projectedIPs d n"
proof -
  let ?ls0 = "(\<lparr>nodeIP = IPnil, nodeIP4 = IPnil, dpUpdate = True\<rparr>, s)"
  let ?ls1 = "fold (internalStep d n) (IPAddresses n) ?ls0"
  let ?ls2 = "if EncryptNode d then fold (encryptStep d n) (IPAddresses n) ?ls1 else ?ls1"
  let ?ls3 = "fold (healthStep d n) [IPv4HealthIP n, IPv6HealthIP n] ?ls2"
  obtain e1 where e1: "upserted n ?ls0 ?ls1 e1"
      "map callIP e1 = map (\<lambda>a. IPString d (AddrIP a)) (filter (\<lambda>a. AddrType a = NodeCiliumInternalIP) (IPAddresses n))"
    using fold_upserted[of n "internalStep d n" "\<lambda>a. AddrType a = NodeCiliumInternalIP" "\<lambda>a. IPString d (AddrIP a)", OF internalStep_upserted]
    by blast
  have "\<exists>e2. upserted n ?ls1 ?ls2 e2 \<and>
      map callIP e2 = (if EncryptNode d
        then map (\<lambda>a. IPString d (AddrIP a)) (filter (\<lambda>a. AddrType a \<noteq> NodeCiliumInternalIP) (IPAddresses n))
        else [])"
  proof (cases "EncryptNode d")
    case True
    have "\<exists>evs. upserted n ?ls1 (fold (encryptStep d n) (IPAddresses n) ?ls1) evs \<and>
        map callIP evs = map (\<lambda>a. IPString d (AddrIP a)) (filter (\<lambda>a. AddrType a \<noteq> NodeCiliumInternalIP) (IPAddresses n))"
      by (rule fold_upserted[OF encryptStep_upserted])
    then show ?thesis using True by simp
  next
    case False
    then show ?thesis by (intro exI[of _ "[]"]) (simp add: upserted_refl)
  qed
  then obtain e2 where e2: "upserted n ?ls1 ?ls2 e2"
      "map callIP e2 = (if EncryptNode d
        then map (\<lambda>a. IPString d (AddrIP a)) (filter (\<lambda>a. AddrType a \<noteq> NodeCiliumInternalIP) (IPAddresses n))
        else [])"
    by blast
  obtain e3 where e3: "upserted n ?ls2 ?ls3 e3"
      "map callIP e3 = map (IPString d) (filter (\<lambda>a. a \<noteq> IPnil) [IPv4HealthIP n, IPv6HealthIP n])"
    using fold_upserted[of n "healthStep d n" "\<lambda>a. a \<noteq> IPnil" "IPString d", OF healthStep_upserted]
    by blast
  have "upserted n ?ls0 ?ls3 (e1 @ e2 @ e3)"
    using upserted_trans[OF e1(1) upserted_trans[OF e2(1) e3(1)]] .
  moreover have "map callIP (e1 @ e2 @ e3) = projectedIPs d n"
    using e1(2) e2(2) e3(2) unfolding projectedIPs_def by simp
  moreover have "projectAddresses d n s = ?ls3"
    by (simp add: projectAddresses_def Let_def)
  ultimately show ?thesis by metis
qed

subsection \<open>Running the model\<close>

lemma NewManager_fresh: "NewManager ''manager'' (Handler 0) True = Some freshManager"
  by (simp add: NewManager_def Subscribe_def freshManager_def)

lemmas run_defs = NodeUpdated_def projectAddresses_def internalStep_def encryptStep_def healthStep_def
  storeNode_def IPIdentityCache_Upsert_def IPIdentityCache_Delete_def incEventsReceived_def
  lockEntry_def unlockEntry_def Iter_def invoke_def exampleDeps_def exampleNode_def freshManager_def Let_def

lemma oneNodeManager_eq: "oneNodeManager = 
   \<lparr>nodes = [(NodeIdentity ''n1'' ''default'', exampleNode ''n1'' ''kvstore'' [10, 0, 0, 1])], nodeHandlers = {Handler 0}, closeChanClosed = False, name = ''manager'',
      metricEventsReceived = (\<lambda>_. 0)((''add'', ''kvstore'') := 1), metricNumNodes = 1, metricDatapathValidations = 0,
      registered = {MetricDatapathValidations, MetricEventsReceived, MetricNumNodes},
      entryMutexHeld = [], ipcache = [Upsert ''10.0.0.1'' (IPBytes [10,0,0,1]) 0 ReservedIdentityHost ''kvstore'' True], 
      handlerLog = (\<lambda>_. [])(Handler 0 := [(NodeAdd (exampleNode ''n1'' ''kvstore'' [10, 0, 0, 1]), [NodeIdentity ''n1'' ''default''])])\<rparr>"
  unfolding oneNodeManager_def
  by (simp add: run_defs fun_eq_iff)


lemma twoNodeManager_eq: "twoNodeManager =
   \<lparr>nodes = [(NodeIdentity ''n1'' ''default'', exampleNode ''n1'' ''kvstore'' [10, 0, 0, 1]),
             (NodeIdentity ''n2'' ''default'', exampleNode ''n2'' ''k8s'' [10, 0, 0, 2])],
    nodeHandlers = {Handler 0}, closeChanClosed = False, name = ''manager'',
    metricEventsReceived = (\<lambda>_. 0)((''add'', ''kvstore'') := 1, (''add'', ''k8s'') := 1),
    metricNumNodes = 2, metricDatapathValidations = 0,
    registered = {MetricDatapathValidations, MetricEventsReceived, MetricNumNodes},
    entryMutexHeld = [],
    ipcache = [Upsert ''10.0.0.1'' (IPBytes [10, 0, 0, 1]) 0 ReservedIdentityHost ''kvstore'' True,
               Upsert ''10.0.0.2'' (IPBytes [10, 0, 0, 2]) 0 ReservedIdentityHost ''k8s'' True],
    handlerLog = (\<lambda>_. [])(Handler 0 :=
       [(NodeAdd (exampleNode ''n1'' ''kvstore'' [10, 0, 0, 1]), [NodeIdentity ''n1'' ''default'']),
        (NodeAdd (exampleNode ''n2'' ''k8s'' [10, 0, 0, 2]), [NodeIdentity ''n2'' ''default''])])\<rparr>"
  unfolding twoNodeManager_def oneNodeManager_eq
  by (simp add: run_defs fun_eq_iff)

lemma wellFormed_twoNodeManager: "wellFormed exampleDeps twoNodeManager"
  by (simp add: wellFormed_def twoNodeManager_eq exampleDeps_def exampleNode_def)

lemma no_entry_for_key:
  assumes "list_all (\<lambda>(k, n). ident n = k) xs" "k \<notin> fst ` set xs"
  shows "filter (\<lambda>(k', n'). ident n' = k) xs = []"
proof -
  have "ident b \<noteq> k" if "(a, b) \<in> set xs" for a b
  proof -
    have "ident b = a" using assms(1) that by (auto simp: list_all_iff)
    moreover have "a \<in> fst ` set xs" using that by force
    ultimately show ?thesis using assms(2) by auto
  qed
  then show ?thesis by (auto simp: filter_empty_conv)
qed

lemma entries_for_key:
  assumes "wellFormed d s"
  shows "length (filter (\<lambda>(k', n'). Identity d n' = k) (nodes s)) = (if k \<in> fst ` set (nodes s) then 1 else 0)"
proof (cases "k \<in> fst ` set (nodes s)")
  case True
  then obtain n where "(k, n) \<in> set (nodes s)" by auto
  then show ?thesis using assms True one_entry_per_key[of "nodes s" "Identity d" k n]
    by (simp add: wellFormed_def)
next
  case False
  then show ?thesis using assms no_entry_for_key[of "Identity d" "nodes s" k]
    by (simp add: wellFormed_def)
qed

lemma newNotifications_Iter_loop:
  assumes "handlerLog s' = (\<lambda>nh. if nh \<in> nodeHandlers s then handlerLog s nh @ new else handlerLog s nh)"
  shows "\<forall>nh\<in>nodeHandlers s. newNotifications s s' nh = new"
    and "\<forall>nh. nh \<notin> nodeHandlers s \<longrightarrow> handlerLog s' nh = handlerLog s nh"
  using assms by (simp_all add: newNotifications_def)

subsection \<open>NodeUpdated and NodeDeleted by cases\<close>

lemma storeNode_rejected:
  assumes "map_of (nodes s1) (Identity d n) = Some old" "\<not> AllowOverwrite d (Source old) (Source n)"
  shows "storeNode d n dp s1 = incEventsReceived ''update'' (Source n) s1"
  using assms by (simp add: storeNode_def Let_def)

lemma storeNode_overwrite:
  assumes "map_of (nodes s1) (Identity d n) = Some old" "AllowOverwrite d (Source old) (Source n)"
  shows "storeNode d n dp s1 =
    (incEventsReceived ''update'' (Source n) s1)
      \<lparr>nodes := AList.update (Identity d n) n (nodes s1),
       handlerLog := (\<lambda>nh. if nh \<in> nodeHandlers s1
                            then handlerLog s1 nh @ (if dp then [(NodeUpdate old n, Identity d n # entryMutexHeld s1)] else [])
                            else handlerLog s1 nh)\<rparr>"
  using assms
  by (cases dp)
     (simp_all add: storeNode_def Let_def incEventsReceived_def lockEntry_def unlockEntry_def Iter_def
        cong: if_cong)

lemma storeNode_add:
  assumes "map_of (nodes s1) (Identity d n) = None"
  shows "storeNode d n dp s1 =
    (incEventsReceived ''add'' (Source n) s1)
      \<lparr>metricNumNodes := metricNumNodes s1 + 1,
       nodes := AList.update (Identity d n) n (nodes s1),
       handlerLog := (\<lambda>nh. if nh \<in> nodeHandlers s1
                            then handlerLog s1 nh @ (if dp then [(NodeAdd n, Identity d n # entryMutexHeld s1)] else [])
                            else handlerLog s1 nh)\<rparr>"
  using assms
  by (cases dp)
     (simp_all add: storeNode_def Let_def incEventsReceived_def lockEntry_def unlockEntry_def Iter_def
        cong: if_cong)

lemma storeNode_ipcache: "ipcache (storeNode d n dp s1) = ipcache s1"
  by (simp add: storeNode_def Let_def incEventsReceived_def lockEntry_def unlockEntry_def Iter_def
        split: option.splits)

lemma NodeUpdated_split:
  obtains evs where
    "map callIP evs = projectedIPs d n"
    "list_all (isUpsertOf n) evs"
    "NodeUpdated d n s = storeNode d n (list_all isOwning evs) (s\<lparr>ipcache := ipcache s @ evs\<rparr>)"
    "ipcache (NodeUpdated d n s) = ipcache s @ evs"
    "newCalls s (NodeUpdated d n s) = evs"
proof -
  obtain evs where evs:
    "upserted n (\<lparr>nodeIP = IPnil, nodeIP4 = IPnil, dpUpdate = True\<rparr>, s) (projectAddresses d n s) evs"
    "map callIP evs = projectedIPs d n"
    using projectAddresses_upserted by blast
  have s1: "snd (projectAddresses d n s) = s\<lparr>ipcache := ipcache s @ evs\<rparr>"
    and dp: "dpUpdate (fst (projectAddresses d n s)) = list_all isOwning evs"
    and ups: "list_all (isUpsertOf n) evs"
    using evs(1) by (simp_all add: upserted_def)
  have eq: "NodeUpdated d n s = storeNode d n (list_all isOwning evs) (s\<lparr>ipcache := ipcache s @ evs\<rparr>)"
    by (simp add: NodeUpdated_def Let_def s1 dp)
  have ipc: "ipcache (NodeUpdated d n s) = ipcache s @ evs"
    unfolding eq by (simp add: storeNode_ipcache)
  have "newCalls s (NodeUpdated d n s) = evs"
    by (simp add: newCalls_def ipc)
  with evs(2) ups eq ipc show ?thesis by (rule that)
qed

lemma newNotifications_one:
  assumes "handlerLog s' = (\<lambda>nh. if nh \<in> nodeHandlers s then handlerLog s nh @ new else handlerLog s nh)"
    "nh \<in> nodeHandlers s"
  shows "newNotifications s s' nh = new"
  using assms by (simp add: newNotifications_def)

lemma NodeUpdated_accepted:
  assumes "accepted d n s"
  obtains evs where
    "map callIP evs = projectedIPs d n"
    "list_all (isUpsertOf n) evs"
    "newCalls s (NodeUpdated d n s) = evs"
    "ipcache (NodeUpdated d n s) = ipcache s @ evs"
    "nodes (NodeUpdated d n s) = AList.update (Identity d n) n (nodes s)"
    "nodeHandlers (NodeUpdated d n s) = nodeHandlers s"
    "entryMutexHeld (NodeUpdated d n s) = entryMutexHeld s"
    "metricNumNodes (NodeUpdated d n s)
       = metricNumNodes s + (if map_of (nodes s) (Identity d n) = None then 1 else 0)"
    "handlerLog (NodeUpdated d n s) =
       (\<lambda>nh. if nh \<in> nodeHandlers s
             then handlerLog s nh @
                  (if list_all isOwning evs
                   then [(case map_of (nodes s) (Identity d n) of
                            None \<Rightarrow> NodeAdd n | Some old \<Rightarrow> NodeUpdate old n,
                          Identity d n # entryMutexHeld s)]
                   else [])
             else handlerLog s nh)"
proof -
  obtain evs where evs: "map callIP evs = projectedIPs d n" "list_all (isUpsertOf n) evs"
    "NodeUpdated d n s = storeNode d n (list_all isOwning evs) (s\<lparr>ipcache := ipcache s @ evs\<rparr>)"
    "ipcache (NodeUpdated d n s) = ipcache s @ evs"
    "newCalls s (NodeUpdated d n s) = evs"
    by (rule NodeUpdated_split)
  let ?s1 = "s\<lparr>ipcache := ipcache s @ evs\<rparr>"
  let ?dp = "list_all isOwning evs"
  show ?thesis
  proof (cases "map_of (nodes s) (Identity d n)")
    case None
    then have "map_of (nodes ?s1) (Identity d n) = None" by simp
    then have eq: "NodeUpdated d n s = (incEventsReceived ''add'' (Source n) ?s1)
      \<lparr>metricNumNodes := metricNumNodes ?s1 + 1,
       nodes := AList.update (Identity d n) n (nodes ?s1),
       handlerLog := (\<lambda>nh. if nh \<in> nodeHandlers ?s1
                            then handlerLog ?s1 nh @ (if ?dp then [(NodeAdd n, Identity d n # entryMutexHeld ?s1)] else [])
                            else handlerLog ?s1 nh)\<rparr>"
      unfolding evs(3) by (rule storeNode_add)
    show ?thesis
      by (rule that[OF evs(1,2,5,4)]) (simp_all add: eq None incEventsReceived_def cong: if_cong)
  next
    case (Some old)
    then have old: "map_of (nodes ?s1) (Identity d n) = Some old" by simp
    have allow: "AllowOverwrite d (Source old) (Source n)"
      using assms Some by (simp add: accepted_def)
    have eq: "NodeUpdated d n s = (incEventsReceived ''update'' (Source n) ?s1)
      \<lparr>nodes := AList.update (Identity d n) n (nodes ?s1),
       handlerLog := (\<lambda>nh. if nh \<in> nodeHandlers ?s1
                            then handlerLog ?s1 nh @ (if ?dp then [(NodeUpdate old n, Identity d n # entryMutexHeld ?s1)] else [])
                            else handlerLog ?s1 nh)\<rparr>"
      unfolding evs(3) using old allow by (rule storeNode_overwrite)
    show ?thesis
      by (rule that[OF evs(1,2,5,4)]) (simp_all add: eq Some incEventsReceived_def cong: if_cong)
  qed
qed

lemma length_update_new:
  "k \<notin> fst ` set al \<Longrightarrow> length (AList.update k v al) = Suc (length al)"
  by (induction al) auto


lemma fold_Delete:
  "fold (\<lambda>address. IPIdentityCache_Delete (f address) src) as s
     = s\<lparr>ipcache := ipcache s @ map (\<lambda>a. Delete (f a) src) as\<rparr>"
  by (induction as arbitrary: s) (simp_all add: IPIdentityCache_Delete_def)

lemma NodeDeleted_match:
  assumes "map_of (nodes s) (Identity d n) = Some old" "Source n = Source old"
  shows "NodeDeleted d n s =
    Inr ((incEventsReceived ''delete'' (Source n) s)
      \<lparr>ipcache := ipcache s @ map (\<lambda>a. Delete (IPString d (AddrIP a)) (Source n)) (IPAddresses old),
       metricNumNodes := metricNumNodes s - 1,
       nodes := AList.delete (Identity d n) (nodes s),
       handlerLog := (\<lambda>nh. if nh \<in> nodeHandlers s
                            then handlerLog s nh @ [(NodeDelete n, Identity d n # entryMutexHeld s)]
                            else handlerLog s nh)\<rparr>)"
  using assms
  by (simp add: NodeDeleted_def Let_def fold_Delete incEventsReceived_def lockEntry_def
        unlockEntry_def Iter_def cong: if_cong)

lemma NodeDeleted_mismatch:
  assumes "map_of (nodes s) (Identity d n) = Some old" "Source n \<noteq> Source old"
  shows "NodeDeleted d n s =
    (if IsLocal d n \<and> Source n = Kubernetes d
     then Close (incEventsReceived ''delete'' (Source n) s)
     else Inr (incEventsReceived ''delete'' (Source n) s))"
  using assms by (simp add: NodeDeleted_def Let_def incEventsReceived_def)

subsection \<open>Well-formed node maps\<close>

text \<open>
  The fresh manager is well formed, and \<open>NodeUpdated\<close> and \<open>NodeDeleted\<close> keep a node
  map well formed.
\<close>

lemma wellFormed_freshManager: "wellFormed d freshManager"
  by (simp add: wellFormed_def freshManager_def)

lemma list_all_update:
  "list_all P al \<Longrightarrow> P (k, v) \<Longrightarrow> list_all P (AList.update k v al)"
  by (induction al) auto

lemma list_all_delete:
  "list_all P al \<Longrightarrow> list_all P (AList.delete k al)"
  by (induction al) auto

lemma NodeUpdated_nodes:
  "nodes (NodeUpdated d n s) = nodes s \<or>
   nodes (NodeUpdated d n s) = AList.update (Identity d n) n (nodes s)"
proof (cases "accepted d n s")
  case True
  then show ?thesis using NodeUpdated_accepted[of d n s] by metis
next
  case False
  then obtain old where old: "map_of (nodes s) (Identity d n) = Some old"
      "\<not> AllowOverwrite d (Source old) (Source n)"
    by (auto simp: accepted_def split: option.splits)
  obtain evs where evs:
    "NodeUpdated d n s = storeNode d n (list_all isOwning evs) (s\<lparr>ipcache := ipcache s @ evs\<rparr>)"
    using NodeUpdated_split[of d n s] by metis
  have "map_of (nodes (s\<lparr>ipcache := ipcache s @ evs\<rparr>)) (Identity d n) = Some old"
    using old(1) by simp
  then have "NodeUpdated d n s = incEventsReceived ''update'' (Source n) (s\<lparr>ipcache := ipcache s @ evs\<rparr>)"
    unfolding evs using old(2) by (rule storeNode_rejected)
  then show ?thesis by (simp add: incEventsReceived_def)
qed

lemma wellFormed_NodeUpdated:
  assumes "wellFormed d s"
  shows "wellFormed d (NodeUpdated d n s)"
  using NodeUpdated_nodes[of d n s] assms
  by (auto simp: wellFormed_def AList.distinct_update intro: list_all_update)

lemma wellFormed_NodeDeleted:
  assumes "wellFormed d s" "NodeDeleted d n s = Inr s'"
  shows "wellFormed d s'"
proof (cases "map_of (nodes s) (Identity d n)")
  case None
  then have "s' = incEventsReceived ''delete'' (Source n) s"
    using assms(2) by (simp add: NodeDeleted_def Let_def incEventsReceived_def)
  then show ?thesis using assms(1) by (simp add: wellFormed_def incEventsReceived_def)
next
  case (Some old)
  show ?thesis
  proof (cases "Source n = Source old")
    case True
    have "nodes s' = AList.delete (Identity d n) (nodes s)"
      using assms(2) unfolding NodeDeleted_match[OF Some True] by auto
    then show ?thesis using assms(1)
      by (simp add: wellFormed_def AList.distinct_delete list_all_delete)
  next
    case False
    let ?s1 = "incEventsReceived ''delete'' (Source n) s"
    have wf1: "wellFormed d ?s1" using assms(1) by (simp add: wellFormed_def incEventsReceived_def)
    show ?thesis
    proof (cases "IsLocal d n \<and> Source n = Kubernetes d")
      case True
      then have c: "Close ?s1 = Inr s'"
        using assms(2) NodeDeleted_mismatch[OF Some False] by simp
      then have "\<not> closeChanClosed ?s1" by (auto simp: Close_def split: if_splits)
      then have "nodes s' = nodes ?s1" using c by (simp add: Close_eq) auto
      then show ?thesis using wf1 by (simp add: wellFormed_def)
    next
      case False
      then have "s' = ?s1" using assms(2) NodeDeleted_mismatch[OF Some \<open>Source n \<noteq> Source old\<close>] by auto
      then show ?thesis using wf1 by simp
    qed
  qed
qed

section \<open>The claims\<close>

subsection \<open>The interval that depends on the cluster size\<close>






subsection \<open>Subscribing a handler\<close>

text \<open>
  Claim C7: \<open>Subscribe\<close> adds the handler to the handler set and calls \<open>NodeAdd\<close> on
  it once for each entry of the node map, with the mutex of that entry held; no other
  handler is called, the map is as before and no mutex stays held. In a well-formed map
  the new handler gets one \<open>NodeAdd\<close> for every identity of the map and none for any
  other, each made while the mutex filed under the identity of its record is held.
\<close>

theorem Subscribe_replays_nodes:
  "nodeHandlers (Subscribe nh s) = insert nh (nodeHandlers s) \<and>
   nodes (Subscribe nh s) = nodes s \<and>
   entryMutexHeld (Subscribe nh s) = entryMutexHeld s \<and>
   handlerLog (Subscribe nh s) nh
     = handlerLog s nh @ map (\<lambda>(k, v). (NodeAdd v, k # entryMutexHeld s)) (nodes s) \<and>
   (\<forall>nh'. nh' \<noteq> nh \<longrightarrow> handlerLog (Subscribe nh s) nh' = handlerLog s nh') \<and>
   (wellFormed d s \<longrightarrow>
      (\<forall>k. length (filter (addsOf d k) (newNotifications s (Subscribe nh s) nh))
            = (if k \<in> fst ` set (nodes s) then 1 else 0)) \<and>
      (\<forall>(c, held) \<in> set (newNotifications s (Subscribe nh s) nh).
          \<exists>v. c = NodeAdd v \<and> Identity d v \<in> set held))"
proof -
  let ?new = "map (\<lambda>(k, v). (NodeAdd v, k # entryMutexHeld s)) (nodes s)"
  have new: "newNotifications s (Subscribe nh s) nh = ?new"
    by (simp add: newNotifications_def Subscribe_eq)
  have count: "length (filter (addsOf d k) ?new) = (if k \<in> fst ` set (nodes s) then 1 else 0)"
    if "wellFormed d s" for k
    using entries_for_key[OF that, of k] by (simp add: filter_addsOf)
  have guard: "\<exists>v. c = NodeAdd v \<and> Identity d v \<in> set held"
    if wf: "wellFormed d s" and mem: "(c, held) \<in> set ?new" for c held
  proof -
    obtain k v where kv: "(k, v) \<in> set (nodes s)" "c = NodeAdd v" "held = k # entryMutexHeld s"
      using mem by auto
    have "Identity d v = k" using wf kv(1) by (auto simp: wellFormed_def list_all_iff)
    then show ?thesis using kv by simp
  qed
  have guards: "\<forall>(c, held) \<in> set ?new. \<exists>v. c = NodeAdd v \<and> Identity d v \<in> set held"
    if "wellFormed d s"
    using guard[OF that] by fast
  have frame: "nodeHandlers (Subscribe nh s) = insert nh (nodeHandlers s)"
      "nodes (Subscribe nh s) = nodes s"
      "entryMutexHeld (Subscribe nh s) = entryMutexHeld s"
      "handlerLog (Subscribe nh s) nh = handlerLog s nh @ ?new"
      "\<forall>nh'. nh' \<noteq> nh \<longrightarrow> handlerLog (Subscribe nh s) nh' = handlerLog s nh'"
    by (simp_all add: Subscribe_eq)
  show ?thesis
    unfolding new using frame count guards by blast
qed

text \<open>Claim C7 for a second handler that subscribes to the manager of two nodes.\<close>

theorem Subscribe_replays_nodes_witness:
  "nodeHandlers (Subscribe (Handler 1) twoNodeManager) = {Handler 1, Handler 0} \<and>
   handlerLog (Subscribe (Handler 1) twoNodeManager) (Handler 1)
     = [(NodeAdd (exampleNode ''n1'' ''kvstore'' [10, 0, 0, 1]), [NodeIdentity ''n1'' ''default'']),
        (NodeAdd (exampleNode ''n2'' ''k8s'' [10, 0, 0, 2]), [NodeIdentity ''n2'' ''default''])] \<and>
   handlerLog (Subscribe (Handler 1) twoNodeManager) (Handler 0) = handlerLog twoNodeManager (Handler 0) \<and>
   length (filter (addsOf exampleDeps (NodeIdentity ''n2'' ''default''))
             (newNotifications twoNodeManager (Subscribe (Handler 1) twoNodeManager) (Handler 1))) = 1 \<and>
   length (filter (addsOf exampleDeps (NodeIdentity ''n3'' ''default''))
             (newNotifications twoNodeManager (Subscribe (Handler 1) twoNodeManager) (Handler 1))) = 0"
proof -
  have h: "handlerLog twoNodeManager (Handler 1) = []" "entryMutexHeld twoNodeManager = []"
          "nodeHandlers twoNodeManager = {Handler 0}"
          "nodes twoNodeManager = [(NodeIdentity ''n1'' ''default'', exampleNode ''n1'' ''kvstore'' [10, 0, 0, 1]),
             (NodeIdentity ''n2'' ''default'', exampleNode ''n2'' ''k8s'' [10, 0, 0, 2])]"
    by (simp_all add: twoNodeManager_eq)
  show ?thesis
    using Subscribe_replays_nodes[of "Handler 1" twoNodeManager exampleDeps]
      wellFormed_twoNodeManager h
    by simp
qed

subsection \<open>Closing the manager\<close>

text \<open>
  Claim C4, as stated, fails: after \<open>Close\<close> has returned, the manager of one node
  still holds its entry, and a snapshot of the identities returns it.
\<close>

theorem Close_counterexample:
  "map_sum id GetNodeIdentities (Close oneNodeManager) = Inr [NodeIdentity ''n1'' ''default''] \<and>
   map_sum id nodes (Close oneNodeManager) = Inr (nodes oneNodeManager)"
proof -
  have "\<not> closeChanClosed oneNodeManager" by (simp add: oneNodeManager_eq)
  then show ?thesis
    by (simp add: Close_eq GetNodeIdentities_def) (simp add: oneNodeManager_eq)
qed

text \<open>
  Claim C4, amended: a \<open>Close\<close> of a manager that is not closed yet returns with the
  close signal given; every handler subscribed has received one \<open>NodeDelete\<close> for each
  entry, made with the mutex of the entry held, and no other handler is called; in a
  well-formed map that is one \<open>NodeDelete\<close> for every identity of the map. The node map
  itself is left as it was: a later snapshot returns every entry.
\<close>

theorem Close_notifies_every_node:
  assumes "\<not> closeChanClosed s"
  shows "\<exists>s'. Close s = Inr s' \<and> closeChanClosed s' \<and>
           nodes s' = nodes s \<and> GetNodes s' = GetNodes s \<and>
           (\<forall>nh\<in>nodeHandlers s.
               newNotifications s s' nh
                 = map (\<lambda>(k, n). (NodeDelete n, k # entryMutexHeld s)) (nodes s)) \<and>
           (\<forall>nh. nh \<notin> nodeHandlers s \<longrightarrow> handlerLog s' nh = handlerLog s nh) \<and>
           (wellFormed d s \<longrightarrow>
              (\<forall>nh\<in>nodeHandlers s. \<forall>k.
                  length (filter (deletesOf d k) (newNotifications s s' nh))
                    = (if k \<in> fst ` set (nodes s) then 1 else 0)))"
proof -
  let ?new = "map (\<lambda>(k, n). (NodeDelete n, k # entryMutexHeld s)) (nodes s)"
  let ?s' = "s\<lparr>closeChanClosed := True,
                registered := registered s - {MetricNumNodes} - {MetricEventsReceived} - {MetricDatapathValidations},
                handlerLog := (\<lambda>nh. if nh \<in> nodeHandlers s then handlerLog s nh @ ?new
                                     else handlerLog s nh)\<rparr>"
  have eq: "Close s = Inr ?s'" using assms by (rule Close_eq)
  have log: "handlerLog ?s' = (\<lambda>nh. if nh \<in> nodeHandlers s then handlerLog s nh @ ?new else handlerLog s nh)"
    by simp
  note new = newNotifications_Iter_loop[OF log]
  have count: "length (filter (deletesOf d k) ?new) = (if k \<in> fst ` set (nodes s) then 1 else 0)"
    if "wellFormed d s" for k
    using entries_for_key[OF that, of k] by (simp add: filter_deletesOf)
  have "closeChanClosed ?s'" "nodes ?s' = nodes s" "GetNodes ?s' = GetNodes s"
    by (simp_all add: GetNodes_def)
  moreover have "wellFormed d s \<longrightarrow>
              (\<forall>nh\<in>nodeHandlers s. \<forall>k.
                  length (filter (deletesOf d k) (newNotifications s ?s' nh))
                    = (if k \<in> fst ` set (nodes s) then 1 else 0))"
    using new(1) count by simp
  ultimately show ?thesis using eq new by blast
qed

text \<open>The amended claim C4 for the manager of two nodes.\<close>

theorem Close_notifies_every_node_witness:
  "map_sum id (\<lambda>s'. newNotifications twoNodeManager s' (Handler 0)) (Close twoNodeManager)
     = Inr [(NodeDelete (exampleNode ''n1'' ''kvstore'' [10, 0, 0, 1]), [NodeIdentity ''n1'' ''default'']),
            (NodeDelete (exampleNode ''n2'' ''k8s'' [10, 0, 0, 2]), [NodeIdentity ''n2'' ''default''])] \<and>
   map_sum id (\<lambda>s'. length (filter (deletesOf exampleDeps (NodeIdentity ''n1'' ''default''))
                               (newNotifications twoNodeManager s' (Handler 0))))
     (Close twoNodeManager) = Inr 1 \<and>
   map_sum id nodes (Close twoNodeManager) = Inr (nodes twoNodeManager)"
proof -
  have open_chan: "\<not> closeChanClosed twoNodeManager" by (simp add: twoNodeManager_eq)
  have h: "entryMutexHeld twoNodeManager = []" "Handler 0 \<in> nodeHandlers twoNodeManager"
          "nodes twoNodeManager = [(NodeIdentity ''n1'' ''default'', exampleNode ''n1'' ''kvstore'' [10, 0, 0, 1]),
             (NodeIdentity ''n2'' ''default'', exampleNode ''n2'' ''k8s'' [10, 0, 0, 2])]"
    by (simp_all add: twoNodeManager_eq)
  obtain s' where s': "Close twoNodeManager = Inr s'" "nodes s' = nodes twoNodeManager"
      "\<forall>nh\<in>nodeHandlers twoNodeManager. newNotifications twoNodeManager s' nh
                 = map (\<lambda>(k, n). (NodeDelete n, k # entryMutexHeld twoNodeManager)) (nodes twoNodeManager)"
      "\<forall>nh\<in>nodeHandlers twoNodeManager. \<forall>k.
                  length (filter (deletesOf exampleDeps k) (newNotifications twoNodeManager s' nh))
                    = (if k \<in> fst ` set (nodes twoNodeManager) then 1 else 0)"
    using Close_notifies_every_node[OF open_chan, of exampleDeps] wellFormed_twoNodeManager by blast
  have "newNotifications twoNodeManager s' (Handler 0)
                 = map (\<lambda>(k, n). (NodeDelete n, k # entryMutexHeld twoNodeManager)) (nodes twoNodeManager)"
    using s'(3) h(2) by blast
  moreover have "length (filter (deletesOf exampleDeps (NodeIdentity ''n1'' ''default'')) (newNotifications twoNodeManager s' (Handler 0)))
      = (if NodeIdentity ''n1'' ''default'' \<in> fst ` set (nodes twoNodeManager) then 1 else 0)"
    using s'(4) h(2) by blast
  ultimately show ?thesis using s'(1,2) h(1,3) by simp
qed

subsection \<open>Deleting all nodes\<close>

text \<open>
  Claim C10: \<open>DeleteAllNodes\<close> calls \<open>NodeDelete\<close> on every subscribed handler for each
  stored record and leaves the node map empty, so \<open>Exists\<close> is false for every identity;
  the gauge of managed nodes and the ipcache are as before, so a gauge that showed the
  number of nodes before the call still shows that number.
\<close>

theorem DeleteAllNodes_effects:
  "nodes (DeleteAllNodes s) = [] \<and>
   (\<forall>k. \<not> Exists (DeleteAllNodes s) k) \<and>
   metricNumNodes (DeleteAllNodes s) = metricNumNodes s \<and>
   ipcache (DeleteAllNodes s) = ipcache s \<and>
   (\<forall>nh\<in>nodeHandlers s.
       newNotifications s (DeleteAllNodes s) nh
         = map (\<lambda>(k, n). (NodeDelete n, k # entryMutexHeld s)) (nodes s)) \<and>
   (\<forall>nh. nh \<notin> nodeHandlers s \<longrightarrow> handlerLog (DeleteAllNodes s) nh = handlerLog s nh) \<and>
   (metricNumNodes s = int (length (nodes s)) \<longrightarrow>
      metricNumNodes (DeleteAllNodes s) = int (length (nodes s)))"
proof -
  let ?new = "map (\<lambda>(k, n). (NodeDelete n, k # entryMutexHeld s)) (nodes s)"
  have log: "handlerLog (DeleteAllNodes s)
      = (\<lambda>nh. if nh \<in> nodeHandlers s then handlerLog s nh @ ?new else handlerLog s nh)"
    by (simp add: DeleteAllNodes_eq)
  note new = newNotifications_Iter_loop[OF log]
  have "nodes (DeleteAllNodes s) = []" "\<forall>k. \<not> Exists (DeleteAllNodes s) k"
       "metricNumNodes (DeleteAllNodes s) = metricNumNodes s" "ipcache (DeleteAllNodes s) = ipcache s"
    by (simp_all add: DeleteAllNodes_eq Exists_def)
  then show ?thesis using new by simp
qed

text \<open>Claim C10 for the manager of two nodes, whose gauge stays at 2.\<close>

theorem DeleteAllNodes_effects_witness:
  "nodes (DeleteAllNodes twoNodeManager) = [] \<and>
   \<not> Exists (DeleteAllNodes twoNodeManager) (NodeIdentity ''n1'' ''default'') \<and>
   metricNumNodes (DeleteAllNodes twoNodeManager) = 2 \<and>
   ipcache (DeleteAllNodes twoNodeManager) = ipcache twoNodeManager \<and>
   newNotifications twoNodeManager (DeleteAllNodes twoNodeManager) (Handler 0)
     = [(NodeDelete (exampleNode ''n1'' ''kvstore'' [10, 0, 0, 1]), [NodeIdentity ''n1'' ''default'']),
        (NodeDelete (exampleNode ''n2'' ''k8s'' [10, 0, 0, 2]), [NodeIdentity ''n2'' ''default''])] \<and>
   handlerLog (DeleteAllNodes twoNodeManager) (Handler 1) = []"
proof -
  have h: "entryMutexHeld twoNodeManager = []" "nodeHandlers twoNodeManager = {Handler 0}"
          "metricNumNodes twoNodeManager = 2" "handlerLog twoNodeManager (Handler 1) = []"
          "nodes twoNodeManager = [(NodeIdentity ''n1'' ''default'', exampleNode ''n1'' ''kvstore'' [10, 0, 0, 1]),
             (NodeIdentity ''n2'' ''default'', exampleNode ''n2'' ''k8s'' [10, 0, 0, 2])]"
    by (simp_all add: twoNodeManager_eq)
  show ?thesis
    using DeleteAllNodes_effects[of twoNodeManager] h by simp
qed

subsection \<open>Updates of a node that has an entry\<close>

text \<open>
  Claim C1, as stated, fails: an update that the arbitration rejects has a second side
  effect. The ipcache upserts of lines 284 to 337 run before the lookup, so the rejected
  update of n1 from Kubernetes has written 10.0.0.2 to the ipcache.
\<close>

theorem NodeUpdated_rejected_counterexample:
  "map_of (nodes oneNodeManager) (Identity exampleDeps rejectedUpdate)
     = Some (exampleNode ''n1'' ''kvstore'' [10, 0, 0, 1]) \<and>
   \<not> AllowOverwrite exampleDeps (Source (exampleNode ''n1'' ''kvstore'' [10, 0, 0, 1])) (Source rejectedUpdate) \<and>
   ipcache (NodeUpdated exampleDeps rejectedUpdate oneNodeManager)
     = ipcache oneNodeManager @ [Upsert ''10.0.0.2'' (IPBytes [10, 0, 0, 2]) 0 ReservedIdentityHost ''k8s'' True] \<and>
   NodeUpdated exampleDeps rejectedUpdate oneNodeManager
     \<noteq> incEventsReceived ''update'' (Source rejectedUpdate) oneNodeManager"
proof -
  have ipc: "ipcache (NodeUpdated exampleDeps rejectedUpdate oneNodeManager)
     = ipcache oneNodeManager @ [Upsert ''10.0.0.2'' (IPBytes [10, 0, 0, 2]) 0 ReservedIdentityHost ''k8s'' True]"
    unfolding oneNodeManager_eq rejectedUpdate_def by (simp add: run_defs)
  have "ipcache (incEventsReceived ''update'' (Source rejectedUpdate) oneNodeManager) = ipcache oneNodeManager"
    by (simp add: incEventsReceived_def)
  with ipc have "NodeUpdated exampleDeps rejectedUpdate oneNodeManager
     \<noteq> incEventsReceived ''update'' (Source rejectedUpdate) oneNodeManager"
    by (metis append_self_conv not_Cons_self2)
  moreover have "map_of (nodes oneNodeManager) (Identity exampleDeps rejectedUpdate)
     = Some (exampleNode ''n1'' ''kvstore'' [10, 0, 0, 1])"
    by (simp add: oneNodeManager_eq rejectedUpdate_def exampleDeps_def exampleNode_def)
  moreover have "\<not> AllowOverwrite exampleDeps (Source (exampleNode ''n1'' ''kvstore'' [10, 0, 0, 1])) (Source rejectedUpdate)"
    by (simp add: rejectedUpdate_def exampleDeps_def exampleNode_def)
  ultimately show ?thesis using ipc by simp
qed

text \<open>
  Claim C1, amended: for an update whose identity has an entry, if \<open>AllowOverwrite\<close> of
  the stored source and the new source is false, the state after \<open>NodeUpdated\<close> is the
  state before but for the counter of received events labelled update, which is one
  higher, and the ipcache, which has received the upserts of the addresses of the update:
  the stored record, the handlers and the gauge are untouched. If \<open>AllowOverwrite\<close> is
  true, the stored record is the record of the update.
\<close>

theorem NodeUpdated_existing_entry:
  assumes "map_of (nodes s) (Identity d n) = Some old"
  shows "(\<not> AllowOverwrite d (Source old) (Source n) \<longrightarrow>
            NodeUpdated d n s
              = (incEventsReceived ''update'' (Source n) s)
                  \<lparr>ipcache := ipcache s @ newCalls s (NodeUpdated d n s)\<rparr> \<and>
            nodes (NodeUpdated d n s) = nodes s \<and>
            handlerLog (NodeUpdated d n s) = handlerLog s \<and>
            metricNumNodes (NodeUpdated d n s) = metricNumNodes s \<and>
            list_all (isUpsertOf n) (newCalls s (NodeUpdated d n s)) \<and>
            map callIP (newCalls s (NodeUpdated d n s)) = projectedIPs d n) \<and>
         (AllowOverwrite d (Source old) (Source n) \<longrightarrow>
            map_of (nodes (NodeUpdated d n s)) (Identity d n) = Some n \<and>
            nodes (NodeUpdated d n s) = AList.update (Identity d n) n (nodes s))"
proof -
  obtain evs where evs: "map callIP evs = projectedIPs d n" "list_all (isUpsertOf n) evs"
    "NodeUpdated d n s = storeNode d n (list_all isOwning evs) (s\<lparr>ipcache := ipcache s @ evs\<rparr>)"
    "newCalls s (NodeUpdated d n s) = evs"
    by (rule NodeUpdated_split)
  let ?s1 = "s\<lparr>ipcache := ipcache s @ evs\<rparr>"
  have old: "map_of (nodes ?s1) (Identity d n) = Some old" using assms by simp
  show ?thesis
  proof (cases "AllowOverwrite d (Source old) (Source n)")
    case False
    have "NodeUpdated d n s = incEventsReceived ''update'' (Source n) ?s1"
      unfolding evs(3) using old False by (rule storeNode_rejected)
    then show ?thesis using False evs(1,2)
      unfolding evs(4) by (simp add: incEventsReceived_def)
  next
    case True
    have "NodeUpdated d n s = (incEventsReceived ''update'' (Source n) ?s1)
      \<lparr>nodes := AList.update (Identity d n) n (nodes ?s1),
       handlerLog := (\<lambda>nh. if nh \<in> nodeHandlers ?s1
                            then handlerLog ?s1 nh @ (if list_all isOwning evs then [(NodeUpdate old n, Identity d n # entryMutexHeld ?s1)] else [])
                            else handlerLog ?s1 nh)\<rparr>"
      unfolding evs(3) using old True by (rule storeNode_overwrite)
    then show ?thesis using True by (simp add: AList.update_conv')
  qed
qed

text \<open>The amended claim C1 for a rejected update from Kubernetes and an accepted one from local state.\<close>

theorem NodeUpdated_existing_entry_witness:
  "nodes (NodeUpdated exampleDeps rejectedUpdate oneNodeManager) = nodes oneNodeManager \<and>
   handlerLog (NodeUpdated exampleDeps rejectedUpdate oneNodeManager) = handlerLog oneNodeManager \<and>
   map callIP (newCalls oneNodeManager (NodeUpdated exampleDeps rejectedUpdate oneNodeManager))
     = [''10.0.0.2''] \<and>
   map_of (nodes (NodeUpdated exampleDeps (exampleNode ''n1'' ''local'' [10, 0, 0, 2]) oneNodeManager))
      (NodeIdentity ''n1'' ''default'') = Some (exampleNode ''n1'' ''local'' [10, 0, 0, 2])"
proof -
  let ?old = "exampleNode ''n1'' ''kvstore'' [10, 0, 0, 1]"
  have e1: "map_of (nodes oneNodeManager) (Identity exampleDeps rejectedUpdate) = Some ?old"
    by (simp add: oneNodeManager_eq rejectedUpdate_def exampleDeps_def exampleNode_def)
  have e2: "map_of (nodes oneNodeManager) (Identity exampleDeps (exampleNode ''n1'' ''local'' [10, 0, 0, 2])) = Some ?old"
    by (simp add: oneNodeManager_eq exampleDeps_def exampleNode_def)
  have a1: "\<not> AllowOverwrite exampleDeps (Source ?old) (Source rejectedUpdate)"
    by (simp add: rejectedUpdate_def exampleDeps_def exampleNode_def)
  have a2: "AllowOverwrite exampleDeps (Source ?old) (Source (exampleNode ''n1'' ''local'' [10, 0, 0, 2]))"
    by (simp add: exampleDeps_def exampleNode_def)
  have p: "projectedIPs exampleDeps rejectedUpdate = [''10.0.0.2'']"
    by (simp add: projectedIPs_def rejectedUpdate_def exampleDeps_def exampleNode_def)
  have i: "Identity exampleDeps (exampleNode ''n1'' ''local'' [10, 0, 0, 2]) = NodeIdentity ''n1'' ''default''"
    by (simp add: exampleDeps_def exampleNode_def)
  show ?thesis
    using NodeUpdated_existing_entry[OF e1] NodeUpdated_existing_entry[OF e2] a1 a2 p i
    by (simp add: AList.update_conv')
qed

subsection \<open>Ownership in the ipcache and the datapath\<close>

text \<open>
  Claim C3: an accepted \<open>NodeUpdated\<close> makes the upserts of the projected addresses of
  \<open>n\<close> and no other ipcache call, stores \<open>n\<close> under its identity and raises the gauge
  by one on an insert; a subscribed handler is called, once with \<open>NodeAdd\<close> on an insert
  and with \<open>NodeUpdate\<close> of the old and the new record on a replacement, exactly when
  every one of these upserts returned ownership, and is not called otherwise.
\<close>

theorem NodeUpdated_notifies_iff_owning:
  assumes "accepted d n s"
  shows "ipcache (NodeUpdated d n s) = ipcache s @ newCalls s (NodeUpdated d n s) \<and>
         list_all (isUpsertOf n) (newCalls s (NodeUpdated d n s)) \<and>
         map callIP (newCalls s (NodeUpdated d n s)) = projectedIPs d n \<and>
         map_of (nodes (NodeUpdated d n s)) (Identity d n) = Some n \<and>
         metricNumNodes (NodeUpdated d n s)
           = metricNumNodes s + (if map_of (nodes s) (Identity d n) = None then 1 else 0) \<and>
         (\<forall>nh\<in>nodeHandlers s.
            newNotifications s (NodeUpdated d n s) nh
              = (if list_all isOwning (newCalls s (NodeUpdated d n s))
                 then [(case map_of (nodes s) (Identity d n) of
                          None \<Rightarrow> NodeAdd n | Some old \<Rightarrow> NodeUpdate old n,
                        Identity d n # entryMutexHeld s)]
                 else []))"
proof -
  obtain evs where evs:
    "map callIP evs = projectedIPs d n"
    "list_all (isUpsertOf n) evs"
    "newCalls s (NodeUpdated d n s) = evs"
    "ipcache (NodeUpdated d n s) = ipcache s @ evs"
    "nodes (NodeUpdated d n s) = AList.update (Identity d n) n (nodes s)"
    "nodeHandlers (NodeUpdated d n s) = nodeHandlers s"
    "entryMutexHeld (NodeUpdated d n s) = entryMutexHeld s"
    "metricNumNodes (NodeUpdated d n s)
       = metricNumNodes s + (if map_of (nodes s) (Identity d n) = None then 1 else 0)"
    "handlerLog (NodeUpdated d n s) =
       (\<lambda>nh. if nh \<in> nodeHandlers s
             then handlerLog s nh @
                  (if list_all isOwning evs
                   then [(case map_of (nodes s) (Identity d n) of
                            None \<Rightarrow> NodeAdd n | Some old \<Rightarrow> NodeUpdate old n,
                          Identity d n # entryMutexHeld s)]
                   else [])
             else handlerLog s nh)"
    by (rule NodeUpdated_accepted[OF assms])
  have "map_of (nodes (NodeUpdated d n s)) (Identity d n) = Some n"
    by (simp add: evs(5) AList.update_conv')
  moreover have "\<forall>nh\<in>nodeHandlers s.
            newNotifications s (NodeUpdated d n s) nh
              = (if list_all isOwning evs
                 then [(case map_of (nodes s) (Identity d n) of
                          None \<Rightarrow> NodeAdd n | Some old \<Rightarrow> NodeUpdate old n,
                        Identity d n # entryMutexHeld s)]
                 else [])"
    using newNotifications_one[OF evs(9)] by blast
  ultimately show ?thesis
    unfolding evs(3) using evs(1,2,4,8) by blast
qed

text \<open>Claim C3 for a new node whose address is granted and for one whose address is not.\<close>

theorem NodeUpdated_notifies_iff_owning_witness:
  "newCalls oneNodeManager (NodeUpdated exampleDeps (exampleNode ''n2'' ''k8s'' [10, 0, 0, 2]) oneNodeManager)
     = [Upsert ''10.0.0.2'' (IPBytes [10, 0, 0, 2]) 0 ReservedIdentityHost ''k8s'' True] \<and>
   newNotifications oneNodeManager
       (NodeUpdated exampleDeps (exampleNode ''n2'' ''k8s'' [10, 0, 0, 2]) oneNodeManager) (Handler 0)
     = [(NodeAdd (exampleNode ''n2'' ''k8s'' [10, 0, 0, 2]), [NodeIdentity ''n2'' ''default''])] \<and>
   newCalls oneNodeManager (NodeUpdated exampleDeps contestedNode oneNodeManager)
     = [Upsert ''10.0.0.9'' (IPBytes [10, 0, 0, 9]) 0 ReservedIdentityHost ''k8s'' False] \<and>
   newNotifications oneNodeManager (NodeUpdated exampleDeps contestedNode oneNodeManager) (Handler 0) = [] \<and>
   map_of (nodes (NodeUpdated exampleDeps contestedNode oneNodeManager)) (NodeIdentity ''n9'' ''default'')
     = Some contestedNode \<and>
   metricNumNodes (NodeUpdated exampleDeps contestedNode oneNodeManager) = 2"
proof -
  let ?n2 = "exampleNode ''n2'' ''k8s'' [10, 0, 0, 2]"
  have acc: "accepted exampleDeps ?n2 oneNodeManager" "accepted exampleDeps contestedNode oneNodeManager"
    by (simp_all add: accepted_def oneNodeManager_eq contestedNode_def exampleDeps_def exampleNode_def)
  have absent: "map_of (nodes oneNodeManager) (Identity exampleDeps ?n2) = None"
      "map_of (nodes oneNodeManager) (Identity exampleDeps contestedNode) = None"
    by (simp_all add: oneNodeManager_eq contestedNode_def exampleDeps_def exampleNode_def)
  have ids: "Identity exampleDeps ?n2 = NodeIdentity ''n2'' ''default''"
      "Identity exampleDeps contestedNode = NodeIdentity ''n9'' ''default''"
    by (simp_all add: contestedNode_def exampleDeps_def exampleNode_def)
  have calls: "newCalls oneNodeManager (NodeUpdated exampleDeps ?n2 oneNodeManager)
     = [Upsert ''10.0.0.2'' (IPBytes [10, 0, 0, 2]) 0 ReservedIdentityHost ''k8s'' True]"
     "newCalls oneNodeManager (NodeUpdated exampleDeps contestedNode oneNodeManager)
     = [Upsert ''10.0.0.9'' (IPBytes [10, 0, 0, 9]) 0 ReservedIdentityHost ''k8s'' False]"
    unfolding oneNodeManager_eq contestedNode_def newCalls_def by (simp_all add: run_defs)
  have h: "Handler 0 \<in> nodeHandlers oneNodeManager" "entryMutexHeld oneNodeManager = []"
      "metricNumNodes oneNodeManager = 1"
    by (simp_all add: oneNodeManager_eq)
  show ?thesis
    using NodeUpdated_notifies_iff_owning[OF acc(1)] NodeUpdated_notifies_iff_owning[OF acc(2)]
      absent ids calls h
    by simp
qed

subsection \<open>The same update twice\<close>

text \<open>
  Claim C5: from a state without the identity of \<open>n\<close>, two deliveries of the same
  update, all of whose upserts return ownership, give every subscribed handler one
  \<open>NodeAdd\<close> followed by one \<open>NodeUpdate\<close> of \<open>n\<close> to \<open>n\<close>, and raise the gauge and the
  number of entries by one, not two. The second delivery passes the arbitration of the
  source of \<open>n\<close> against itself, which is a parameter of the model.
\<close>

theorem NodeUpdated_twice:
  assumes absent: "map_of (nodes s) (Identity d n) = None"
    and refl: "AllowOverwrite d (Source n) (Source n)"
    and owning: "list_all isOwning (newCalls s (NodeUpdated d n (NodeUpdated d n s)))"
  shows "(\<forall>nh\<in>nodeHandlers s.
            newNotifications s (NodeUpdated d n (NodeUpdated d n s)) nh
              = [(NodeAdd n, Identity d n # entryMutexHeld s),
                 (NodeUpdate n n, Identity d n # entryMutexHeld s)]) \<and>
         metricNumNodes (NodeUpdated d n (NodeUpdated d n s)) = metricNumNodes s + 1 \<and>
         map_of (nodes (NodeUpdated d n (NodeUpdated d n s))) (Identity d n) = Some n \<and>
         length (nodes (NodeUpdated d n (NodeUpdated d n s))) = length (nodes s) + 1"
proof -
  let ?k = "Identity d n"
  let ?s1 = "NodeUpdated d n s"
  let ?s2 = "NodeUpdated d n ?s1"
  have acc1: "accepted d n s" using absent by (simp add: accepted_def)
  obtain e1 where e1:
    "map callIP e1 = projectedIPs d n"
    "list_all (isUpsertOf n) e1"
    "newCalls s ?s1 = e1"
    "ipcache ?s1 = ipcache s @ e1"
    "nodes ?s1 = AList.update ?k n (nodes s)"
    "nodeHandlers ?s1 = nodeHandlers s"
    "entryMutexHeld ?s1 = entryMutexHeld s"
    "metricNumNodes ?s1 = metricNumNodes s + (if map_of (nodes s) ?k = None then 1 else 0)"
    "handlerLog ?s1 =
       (\<lambda>nh. if nh \<in> nodeHandlers s
             then handlerLog s nh @
                  (if list_all isOwning e1
                   then [(case map_of (nodes s) ?k of
                            None \<Rightarrow> NodeAdd n | Some old \<Rightarrow> NodeUpdate old n,
                          ?k # entryMutexHeld s)]
                   else [])
             else handlerLog s nh)"
    by (rule NodeUpdated_accepted[OF acc1])
  have stored: "map_of (nodes ?s1) ?k = Some n" by (simp add: e1(5) AList.update_conv')
  have acc2: "accepted d n ?s1" using stored refl by (simp add: accepted_def)
  obtain e2 where e2:
    "map callIP e2 = projectedIPs d n"
    "list_all (isUpsertOf n) e2"
    "newCalls ?s1 ?s2 = e2"
    "ipcache ?s2 = ipcache ?s1 @ e2"
    "nodes ?s2 = AList.update ?k n (nodes ?s1)"
    "nodeHandlers ?s2 = nodeHandlers ?s1"
    "entryMutexHeld ?s2 = entryMutexHeld ?s1"
    "metricNumNodes ?s2 = metricNumNodes ?s1 + (if map_of (nodes ?s1) ?k = None then 1 else 0)"
    "handlerLog ?s2 =
       (\<lambda>nh. if nh \<in> nodeHandlers ?s1
             then handlerLog ?s1 nh @
                  (if list_all isOwning e2
                   then [(case map_of (nodes ?s1) ?k of
                            None \<Rightarrow> NodeAdd n | Some old \<Rightarrow> NodeUpdate old n,
                          ?k # entryMutexHeld ?s1)]
                   else [])
             else handlerLog ?s1 nh)"
    by (rule NodeUpdated_accepted[OF acc2])
  have "newCalls s ?s2 = e1 @ e2" by (simp add: newCalls_def e2(4) e1(4))
  then have own: "list_all isOwning e1" "list_all isOwning e2" using owning by simp_all
  have log: "handlerLog ?s2 nh
      = handlerLog s nh @ [(NodeAdd n, ?k # entryMutexHeld s), (NodeUpdate n n, ?k # entryMutexHeld s)]"
    if "nh \<in> nodeHandlers s" for nh
    using that by (simp add: e2(9) e1(9) e1(6) e1(7) own stored absent)
  have notif: "\<forall>nh\<in>nodeHandlers s. newNotifications s ?s2 nh
      = [(NodeAdd n, ?k # entryMutexHeld s), (NodeUpdate n n, ?k # entryMutexHeld s)]"
    using log by (simp add: newNotifications_def)
  have gauge: "metricNumNodes ?s2 = metricNumNodes s + 1"
    by (simp add: e2(8) e1(8) stored absent)
  have stored2: "map_of (nodes ?s2) ?k = Some n" by (simp add: e2(5) AList.update_conv')
  have notin: "?k \<notin> fst ` set (nodes s)" using absent by (simp add: map_of_eq_None_iff)
  have len1: "length (nodes ?s1) = length (nodes s) + 1"
    using notin unfolding e1(5) by (simp add: length_update_new)
  have "nodes ?s2 = nodes ?s1" unfolding e2(5) using stored by (rule AList.update_triv)
  with len1 have "length (nodes ?s2) = length (nodes s) + 1" by simp
  with notif gauge stored2 show ?thesis by blast
qed

text \<open>Claim C5 on the fresh manager: the gauge is 1 after both deliveries.\<close>

theorem NodeUpdated_twice_witness:
  "newNotifications freshManager
      (NodeUpdated exampleDeps (exampleNode ''n1'' ''kvstore'' [10, 0, 0, 1])
         (NodeUpdated exampleDeps (exampleNode ''n1'' ''kvstore'' [10, 0, 0, 1]) freshManager))
      (Handler 0)
     = [(NodeAdd (exampleNode ''n1'' ''kvstore'' [10, 0, 0, 1]), [NodeIdentity ''n1'' ''default'']),
        (NodeUpdate (exampleNode ''n1'' ''kvstore'' [10, 0, 0, 1]) (exampleNode ''n1'' ''kvstore'' [10, 0, 0, 1]),
         [NodeIdentity ''n1'' ''default''])] \<and>
   metricNumNodes
      (NodeUpdated exampleDeps (exampleNode ''n1'' ''kvstore'' [10, 0, 0, 1])
         (NodeUpdated exampleDeps (exampleNode ''n1'' ''kvstore'' [10, 0, 0, 1]) freshManager)) = 1"
proof -
  let ?n = "exampleNode ''n1'' ''kvstore'' [10, 0, 0, 1]"
  have absent: "map_of (nodes freshManager) (Identity exampleDeps ?n) = None"
    by (simp add: freshManager_def)
  have refl: "AllowOverwrite exampleDeps (Source ?n) (Source ?n)"
    by (simp add: exampleDeps_def exampleNode_def)
  have "newCalls freshManager (NodeUpdated exampleDeps ?n (NodeUpdated exampleDeps ?n freshManager))
      = [Upsert ''10.0.0.1'' (IPBytes [10, 0, 0, 1]) 0 ReservedIdentityHost ''kvstore'' True,
         Upsert ''10.0.0.1'' (IPBytes [10, 0, 0, 1]) 0 ReservedIdentityHost ''kvstore'' True]"
    unfolding oneNodeManager_def[symmetric] oneNodeManager_eq newCalls_def
    by (simp add: run_defs)
  then have owning: "list_all isOwning
      (newCalls freshManager (NodeUpdated exampleDeps ?n (NodeUpdated exampleDeps ?n freshManager)))"
    by simp
  have h: "Handler 0 \<in> nodeHandlers freshManager" "entryMutexHeld freshManager = []"
      "metricNumNodes freshManager = 0" "Identity exampleDeps ?n = NodeIdentity ''n1'' ''default''"
    by (simp_all add: freshManager_def exampleDeps_def exampleNode_def)
  show ?thesis
    using NodeUpdated_twice[OF absent refl owning] h by simp
qed

subsection \<open>Deleting a node\<close>



text \<open>
  Claim C9: on an accepted delete every subscribed handler gets \<open>NodeDelete\<close> with the
  record of the event, while the addresses deleted from the ipcache are those of the
  stored record; when the two records differ, no handler sees the stored one.
\<close>

theorem NodeDeleted_passes_event_record:
  assumes "map_of (nodes s) (Identity d n) = Some old" "Source n = Source old"
  shows "\<exists>s'. NodeDeleted d n s = Inr s' \<and>
           (\<forall>nh\<in>nodeHandlers s. map fst (newNotifications s s' nh) = [NodeDelete n]) \<and>
           newCalls s s' = map (\<lambda>a. Delete (IPString d (AddrIP a)) (Source n)) (IPAddresses old) \<and>
           (n \<noteq> old \<longrightarrow>
              (\<forall>nh\<in>nodeHandlers s. NodeDelete old \<notin> fst ` set (newNotifications s s' nh)))"
proof -
  let ?dels = "map (\<lambda>a. Delete (IPString d (AddrIP a)) (Source n)) (IPAddresses old)"
  let ?s' = "(incEventsReceived ''delete'' (Source n) s)
      \<lparr>ipcache := ipcache s @ ?dels,
       metricNumNodes := metricNumNodes s - 1,
       nodes := AList.delete (Identity d n) (nodes s),
       handlerLog := (\<lambda>nh. if nh \<in> nodeHandlers s
                            then handlerLog s nh @ [(NodeDelete n, Identity d n # entryMutexHeld s)]
                            else handlerLog s nh)\<rparr>"
  have eq: "NodeDeleted d n s = Inr ?s'" using assms by (rule NodeDeleted_match)
  have calls: "newCalls s ?s' = ?dels" by (simp add: newCalls_def)
  have notif: "newNotifications s ?s' nh = [(NodeDelete n, Identity d n # entryMutexHeld s)]"
    if "nh \<in> nodeHandlers s" for nh
    using that by (simp add: newNotifications_def)
  have "\<forall>nh\<in>nodeHandlers s. map fst (newNotifications s ?s' nh) = [NodeDelete n]"
    using notif by simp
  moreover have "n \<noteq> old \<longrightarrow>
      (\<forall>nh\<in>nodeHandlers s. NodeDelete old \<notin> fst ` set (newNotifications s ?s' nh))"
    using notif by auto
  ultimately show ?thesis using eq calls by blast
qed

text \<open>Claim C9 for a delete of n1 that names 10.0.0.2 while 10.0.0.1 is stored.\<close>

theorem NodeDeleted_passes_event_record_witness:
  "exampleNode ''n1'' ''kvstore'' [10, 0, 0, 2] \<noteq> exampleNode ''n1'' ''kvstore'' [10, 0, 0, 1] \<and>
   map_sum id (\<lambda>s'. map fst (newNotifications oneNodeManager s' (Handler 0)))
       (NodeDeleted exampleDeps (exampleNode ''n1'' ''kvstore'' [10, 0, 0, 2]) oneNodeManager)
     = Inr [NodeDelete (exampleNode ''n1'' ''kvstore'' [10, 0, 0, 2])] \<and>
   map_sum id (newCalls oneNodeManager)
       (NodeDeleted exampleDeps (exampleNode ''n1'' ''kvstore'' [10, 0, 0, 2]) oneNodeManager)
     = Inr [Delete ''10.0.0.1'' ''kvstore'']"
proof -
  let ?old = "exampleNode ''n1'' ''kvstore'' [10, 0, 0, 1]"
  let ?n = "exampleNode ''n1'' ''kvstore'' [10, 0, 0, 2]"
  have e: "map_of (nodes oneNodeManager) (Identity exampleDeps ?n) = Some ?old"
    by (simp add: oneNodeManager_eq exampleDeps_def exampleNode_def)
  have c: "Source ?n = Source ?old" by (simp add: exampleNode_def)
  have ne: "?n \<noteq> ?old" by (simp add: exampleNode_def)
  obtain s' where s': "NodeDeleted exampleDeps ?n oneNodeManager = Inr s'"
      "\<forall>nh\<in>nodeHandlers oneNodeManager. map fst (newNotifications oneNodeManager s' nh) = [NodeDelete ?n]"
      "newCalls oneNodeManager s'
         = map (\<lambda>a. Delete (IPString exampleDeps (AddrIP a)) (Source ?n)) (IPAddresses ?old)"
    using NodeDeleted_passes_event_record[OF e c] by blast
  have h: "Handler 0 \<in> nodeHandlers oneNodeManager" by (simp add: oneNodeManager_eq)
  have "map fst (newNotifications oneNodeManager s' (Handler 0)) = [NodeDelete ?n]"
    using s'(2) h by blast
  moreover have "newCalls oneNodeManager s' = [Delete ''10.0.0.1'' ''kvstore'']"
    unfolding s'(3) by (simp add: exampleDeps_def exampleNode_def)
  ultimately show ?thesis using s'(1) ne by simp
qed

end
